theory Spec2Isabelle
  imports Main "HOL-Library.Word" "HOL-Library.Char_ord" "HOL-Library.List_Lexorder"
begin

unbundle bit_operations_syntax

chapter \<open>A model of the carnatus chess engine\<close>

text \<open>
  The engine keeps a board of 120 cells, always seen from the side to move, generates
  pseudo-legal moves on it and applies a move by updating a copy and flipping it. This
  theory embeds the board, the FEN parser, the move generator \<^verbatim>\<open>Position.Moves\<close>, the
  evaluation \<^verbatim>\<open>Position.value\<close> and \<^verbatim>\<open>Position.Move\<close>, function by function, and proves
  what they do. The search (\<^verbatim>\<open>Searcher.bound\<close>, \<^verbatim>\<open>Searcher.Search\<close>) and the console
  front ends are not embedded.

  Go's \<^verbatim>\<open>int\<close> is an unbounded integer here. Every square that indexes the board goes
  through a range check first, so square arithmetic stays far from the machine's limits;
  scores are only added and negated, and no statement below depends on a score that
  would wrap. Bytes whose arithmetic does wrap (\<^verbatim>\<open>abs\<close>, the digit loop of the parser) are
  machine words.
\<close>

section \<open>Runtime failures\<close>

text \<open>
  Indexing an array or a string out of range makes the Go program panic. The panic is a
  value of the model: a function that indexes returns \<open>panic + 'a\<close>, with \<open>Inl\<close> for
  the panic. The \<^verbatim>\<open>error\<close> that \<^verbatim>\<open>FEN\<close> returns beside its board is an ordinary
  result, a \<open>string option\<close> with \<open>None\<close> for \<^verbatim>\<open>nil\<close>.
\<close>

datatype panic = IndexOutOfRange

text \<open>Checked indexing: what \<^verbatim>\<open>a[i]\<close> does in Go for a signed index.\<close>

definition at :: "'a list \<Rightarrow> int \<Rightarrow> panic + 'a" where
  "at xs i = (if 0 \<le> i \<and> i < int (length xs) then Inr (xs ! nat i) else Inl IndexOutOfRange)"

text \<open>Checked assignment \<^verbatim>\<open>a[i] = x\<close>.\<close>

definition put :: "'a list \<Rightarrow> int \<Rightarrow> 'a \<Rightarrow> panic + 'a list" where
  "put xs i x = (if 0 \<le> i \<and> i < int (length xs) then Inr (xs[nat i := x]) else Inl IndexOutOfRange)"

text \<open>Go's \<^verbatim>\<open>/\<close> and \<^verbatim>\<open>%\<close> on integers truncate towards zero.\<close>

definition quo :: "int \<Rightarrow> int \<Rightarrow> int" where
  "quo a b = sgn a * sgn b * (\<bar>a\<bar> div \<bar>b\<bar>)"

definition rem :: "int \<Rightarrow> int \<Rightarrow> int" where
  "rem a b = a - b * quo a b"

text \<open>
  \<^verbatim>\<open>func abs(n int) int { return int((int64(n) ^ int64(n)>>63) - int64(n)>>63) }\<close>
  The shift binds tighter than \<^verbatim>\<open>^\<close> and \<^verbatim>\<open>-\<close>, and is arithmetic on a signed operand.
\<close>

definition abs_go :: "int \<Rightarrow> int" where
  "abs_go n =
     (let w = (word_of_int n :: 64 word)
      in sint ((w XOR signed_drop_bit 63 w) - signed_drop_bit 63 w))"

section \<open>Pieces\<close>

text \<open>\<^verbatim>\<open>type Piece byte\<close>: a letter, a dot for an empty square, a blank for the padding.\<close>

type_synonym Piece = char

text \<open>\<^verbatim>\<open>Piece.value\<close>: a map lookup, 0 for a key that is absent.\<close>

definition piece_value :: "Piece \<Rightarrow> int" where
  "piece_value p =
     (if p = CHR ''P'' then 100
      else if p = CHR ''N'' then 280
      else if p = CHR ''B'' then 320
      else if p = CHR ''R'' then 479
      else if p = CHR ''Q'' then 929
      else if p = CHR ''K'' then 60000
      else 0)"

definition ours :: "Piece \<Rightarrow> bool" where
  "ours p = (piece_value p > 0)"

text \<open>\<^verbatim>\<open>Piece.Flip\<close>: again a map lookup; a byte that is no key gives the zero byte.\<close>

definition Flip_piece :: "Piece \<Rightarrow> Piece" where
  "Flip_piece p =
     (if p = CHR ''P'' then CHR ''p''
      else if p = CHR ''N'' then CHR ''n''
      else if p = CHR ''B'' then CHR ''b''
      else if p = CHR ''R'' then CHR ''r''
      else if p = CHR ''Q'' then CHR ''q''
      else if p = CHR ''K'' then CHR ''k''
      else if p = CHR ''p'' then CHR ''P''
      else if p = CHR ''n'' then CHR ''N''
      else if p = CHR ''b'' then CHR ''B''
      else if p = CHR ''r'' then CHR ''R''
      else if p = CHR ''q'' then CHR ''Q''
      else if p = CHR ''k'' then CHR ''K''
      else if p = CHR '' '' then CHR '' ''
      else if p = CHR ''.'' then CHR ''.''
      else CHR 0x00)"

text \<open>The fourteen codes a board cell is meant to hold.\<close>

definition valid_piece :: "Piece \<Rightarrow> bool" where
  "valid_piece p = (p \<in> set ''PNBRQKpnbrqk .'')"

section \<open>Boards and squares\<close>

text \<open>
  \<^verbatim>\<open>type Board [120]Piece\<close>. The array is a list here; that it has 120 cells is the
  predicate \<open>is_board\<close>, a hypothesis wherever the length matters.
\<close>

type_synonym Board = "Piece list"

definition is_board :: "Board \<Rightarrow> bool" where
  "is_board b = (length b = 120)"

text \<open>
  \<^verbatim>\<open>for i := len(a) - 1; i >= 0; i-- { b[i] = a[len(a)-i-1].Flip() }\<close>
  The counter of \<open>Flip_loop\<close> is the number of indices still to be written: at
  \<open>Suc i\<close> the loop writes cell \<open>i\<close>. The result starts as the zero array.
\<close>

fun Flip_loop :: "Board \<Rightarrow> Board \<Rightarrow> nat \<Rightarrow> Board" where
  "Flip_loop a b 0 = b"
| "Flip_loop a b (Suc i) = Flip_loop a (b[i := Flip_piece (a ! (length a - i - 1))]) i"

definition Flip_board :: "Board \<Rightarrow> Board" where
  "Flip_board a = Flip_loop a (replicate (length a) (CHR 0x00)) (length a)"

text \<open>\<^verbatim>\<open>type Square int\<close> with the corner and direction constants.\<close>

type_synonym Square = int

definition A1 :: Square where "A1 = 91"
definition H1 :: Square where "H1 = 98"
definition A8 :: Square where "A8 = 21"
definition H8 :: Square where "H8 = 28"

definition Flip_square :: "Square \<Rightarrow> Square" where
  "Flip_square s = 119 - s"

definition dN :: Square where "dN = -10"
definition dE :: Square where "dE = 1"
definition dS :: Square where "dS = 10"
definition dW :: Square where "dW = -1"

text \<open>
  The padding invariant of a board: the cells of rows 2 to 9 and columns 1 to 8 hold a
  piece letter or a dot, every other cell holds a blank.
\<close>

definition inner :: "Square \<Rightarrow> bool" where
  "inner s = (2 \<le> s div 10 \<and> s div 10 \<le> 9 \<and> 1 \<le> s mod 10 \<and> s mod 10 \<le> 8)"

definition padded :: "Board \<Rightarrow> bool" where
  "padded b =
     (length b = 120 \<and>
      list_all (\<lambda>k. if inner (int k) then b ! k \<in> set ''PNBRQKpnbrqk.'' else b ! k = CHR '' '')
        [0..<120])"

section \<open>Positions\<close>

record Move =
  mfrom :: Square
  mto :: Square

record Position =
  board :: Board
  score :: int
  wc :: "bool \<times> bool"
  bc :: "bool \<times> bool"
  ep :: Square
  kp :: Square

definition Flip_position :: "Position \<Rightarrow> Position" where
  "Flip_position pos =
     \<lparr> board = Flip_board (board pos),
       score = - score pos,
       wc = (fst (bc pos), snd (bc pos)),
       bc = (fst (wc pos), snd (wc pos)),
       ep = Flip_square (ep pos),
       kp = Flip_square (kp pos) \<rparr>"

section \<open>Rendering and parsing a board\<close>

text \<open>
  \<^verbatim>\<open>Board.String\<close>: rows 2 to 9, columns 1 to 8, a newline first and after every row.
  The indices are constants below 120, so they need no check on a board.
\<close>

definition String_board :: "Board \<Rightarrow> string" where
  "String_board a =
     foldl (\<lambda>s row. foldl (\<lambda>s col. s @ [a ! (row * 10 + col)]) s [1..<9] @ [CHR 0x0A])
       [CHR 0x0A] [2..<10]"

text \<open>\<^verbatim>\<open>strings.Split\<close> for a separator of one byte: one more part than separators.\<close>

fun Split :: "string \<Rightarrow> char \<Rightarrow> string list" where
  "Split [] sep = [[]]"
| "Split (c # cs) sep =
     (let parts = Split cs sep
      in if c = sep then [] # parts else (c # hd parts) # tl parts)"

text \<open>
  \<^verbatim>\<open>for j := Piece(0); q-j >= '1'; j++ { b[index] = '.'; index++ }\<close>
  on bytes, whose subtraction wraps.
\<close>

function dots_loop :: "8 word \<Rightarrow> 8 word \<Rightarrow> Board \<Rightarrow> int \<Rightarrow> panic + (Board \<times> int)" where
  "dots_loop q j b index =
     (if q - j \<ge> 49
      then (case put b index (CHR ''.'') of
              Inl e \<Rightarrow> Inl e
            | Inr b' \<Rightarrow> dots_loop q (j + 1) b' (index + 1))
      else Inr (b, index))"
  by pat_completeness auto
termination
proof (relation "measure (\<lambda>(q, j, b, index). unat (q - j))")
  fix q j :: "8 word"
  assume "49 \<le> q - j"
  then have "unat (q - j - 1) < unat (q - j)"
    by unat_arith
  then show "((q, j + 1, b', index + 1), (q, j, b, index)) \<in> measure (\<lambda>(q, j, b, index). unat (q - j))"
    for b b' :: Board and index :: int
    by (simp add: diff_diff_eq)
qed simp

text \<open>
  The loop over the characters of one row. The model reads the row byte by byte, which
  is what \<^verbatim>\<open>range\<close> yields for ASCII text; the result carries the error of an early
  \<^verbatim>\<open>return\<close>.
\<close>

fun row_loop :: "string \<Rightarrow> Board \<Rightarrow> int \<Rightarrow> panic + (Board \<times> int \<times> string option)" where
  "row_loop [] b index = Inr (b, index, None)"
| "row_loop (c # cs) b index =
     (if CHR ''1'' \<le> c \<and> c \<le> CHR ''8''
      then (case dots_loop (of_char c) 0 b index of
              Inl e \<Rightarrow> Inl e
            | Inr (b', index') \<Rightarrow> row_loop cs b' index')
      else if piece_value c = 0 \<and> piece_value (Flip_piece c) = 0
      then Inr (b, index, Some (''invalid piece value: '' @ [c]))
      else (case put b index c of
              Inl e \<Rightarrow> Inl e
            | Inr b' \<Rightarrow> row_loop cs b' (index + 1)))"

text \<open>The loop \<^verbatim>\<open>for i := 0; i < 8; i++\<close> over the rows, given the values of \<open>i\<close> still to do.\<close>

fun rows_loop :: "string list \<Rightarrow> nat list \<Rightarrow> Board \<Rightarrow> panic + (Board \<times> string option)" where
  "rows_loop rows [] b = Inr (b, None)"
| "rows_loop rows (i # is) b =
     (case row_loop (rows ! i) b (int i * 10 + 21) of
        Inl e \<Rightarrow> Inl e
      | Inr (b', index, Some err) \<Rightarrow> Inr (b', Some err)
      | Inr (b', index, None) \<Rightarrow>
          if rem index 10 \<noteq> 9 then Inr (b', Some ''invalid row length'')
          else rows_loop rows is b')"

definition FEN :: "string \<Rightarrow> panic + (Board \<times> string option)" where
  "FEN fen =
     (let parts = Split fen (CHR '' '');
          rows = Split (parts ! 0) (CHR ''/'')
      in if length rows \<noteq> 8 then Inr (replicate 120 (CHR 0x00), Some ''FEN should have 8 rows'')
         else (case rows_loop rows [0..<8] (replicate 120 (CHR '' '')) of
                 Inl e \<Rightarrow> Inl e
               | Inr (b, Some err) \<Rightarrow> Inr (b, Some err)
               | Inr (b, None) \<Rightarrow>
                   if length parts > 1 \<and> parts ! 1 = ''b'' then Inr (Flip_board b, None)
                   else Inr (b, None)))"

section \<open>Move generation\<close>

text \<open>The table \<^verbatim>\<open>directions\<close> of \<^verbatim>\<open>Position.Moves\<close>; a piece that is no key has no direction.\<close>

definition directions :: "Piece \<Rightarrow> Square list" where
  "directions p =
     (if p = CHR ''P'' then [dN, dN + dN, dN + dW, dN + dE]
      else if p = CHR ''N'' then
        [dN + dN + dE, dE + dN + dE, dE + dS + dE, dS + dS + dE,
         dS + dS + dW, dW + dS + dW, dW + dN + dW, dN + dN + dW]
      else if p = CHR ''B'' then [dN + dE, dS + dE, dS + dW, dN + dW]
      else if p = CHR ''R'' then [dN, dE, dS, dW]
      else if p = CHR ''Q'' then [dN, dE, dS, dW, dN + dE, dS + dE, dS + dW, dN + dW]
      else if p = CHR ''K'' then [dN, dE, dS, dW, dN + dE, dS + dE, dS + dW, dN + dW]
      else [])"

text \<open>
  The three tests made for a pawn, in the order of the source; the result tells whether
  one of them leaves the loop. The square in front of the pawn is read only when the
  direction is the double step and the pawn stands on its home rank or behind it.
\<close>

definition pawn_break :: "Position \<Rightarrow> Square \<Rightarrow> Square \<Rightarrow> Square \<Rightarrow> Piece \<Rightarrow> panic + bool" where
  "pawn_break pos i d j q =
     (if (d = dN \<or> d = dN + dN) \<and> q \<noteq> CHR ''.'' then Inr True
      else
        (case (if d = dN + dN
               then (if i < A1 + dN then Inr True
                     else (case at (board pos) (i + dN) of
                             Inl e \<Rightarrow> Inl e
                           | Inr r \<Rightarrow> Inr (r \<noteq> CHR ''.'')))
               else Inr False) of
           Inl e \<Rightarrow> Inl e
         | Inr blocked \<Rightarrow>
             if blocked then Inr True
             else Inr ((d = dN + dW \<or> d = dN + dE) \<and> q = CHR ''.'' \<and>
                       (j \<noteq> ep pos \<and> j \<noteq> kp pos \<and> j \<noteq> kp pos - 1 \<and> j \<noteq> kp pos + 1))))"

text \<open>
  The two castling tests at the end of the loop body. The neighbour of \<open>j\<close> is read
  only when \<open>i\<close> is the rook's corner.
\<close>

definition castling :: "Position \<Rightarrow> Square \<Rightarrow> Square \<Rightarrow> Move list \<Rightarrow> panic + Move list" where
  "castling pos i j moves =
     (case (if i = A1
            then (case at (board pos) (j + dE) of
                    Inl e \<Rightarrow> Inl e
                  | Inr r \<Rightarrow>
                      Inr (if r = CHR ''K'' \<and> fst (wc pos)
                           then moves @ [\<lparr>mfrom = j + dE, mto = j + dW\<rparr>] else moves))
            else Inr moves) of
        Inl e \<Rightarrow> Inl e
      | Inr moves1 \<Rightarrow>
          (if i = H1
           then (case at (board pos) (j + dW) of
                   Inl e \<Rightarrow> Inl e
                 | Inr r \<Rightarrow>
                     Inr (if r = CHR ''K'' \<and> snd (wc pos)
                          then moves1 @ [\<lparr>mfrom = j + dW, mto = j + dE\<rparr>] else moves1))
           else Inr moves1))"

text \<open>
  One pass through the body of \<^verbatim>\<open>for j := i + d; ; j = j + d\<close>. The result is the list
  of moves so far and whether the body left the loop by \<^verbatim>\<open>break\<close>.
\<close>

definition ray_step ::
  "Position \<Rightarrow> Piece \<Rightarrow> Square \<Rightarrow> Square \<Rightarrow> Square \<Rightarrow> Move list \<Rightarrow> panic + (bool \<times> Move list)" where
  "ray_step pos p i d j moves =
     (case at (board pos) j of
        Inl e \<Rightarrow> Inl e
      | Inr q \<Rightarrow>
          if q = CHR '' '' \<or> (q \<noteq> CHR ''.'' \<and> ours q) then Inr (True, moves)
          else
            (case (if p = CHR ''P'' then pawn_break pos i d j q else Inr False) of
               Inl e \<Rightarrow> Inl e
             | Inr blocked \<Rightarrow>
                 if blocked then Inr (True, moves)
                 else
                   (let moves1 = moves @ [\<lparr>mfrom = i, mto = j\<rparr>]
                    in if p = CHR ''P'' \<or> p = CHR ''N'' \<or> p = CHR ''K'' \<or>
                          (q \<noteq> CHR '' '' \<and> q \<noteq> CHR ''.'' \<and> \<not> ours q)
                       then Inr (True, moves1)
                       else (case castling pos i j moves1 of
                               Inl e \<Rightarrow> Inl e
                             | Inr moves2 \<Rightarrow> Inr (False, moves2)))))"

text \<open>
  The loop itself has no bound of its own: it ends by \<^verbatim>\<open>break\<close> or by a panic. Not
  returning is the value \<open>None\<close>.
\<close>

partial_function (option) ray ::
  "Position \<Rightarrow> Piece \<Rightarrow> Square \<Rightarrow> Square \<Rightarrow> Square \<Rightarrow> Move list \<Rightarrow> (panic + Move list) option" where
  "ray pos p i d j moves =
     (case ray_step pos p i d j moves of
        Inl e \<Rightarrow> Some (Inl e)
      | Inr (brk, moves') \<Rightarrow>
          if brk then Some (Inr moves') else ray pos p i d (j + d) moves')"

declare ray.simps [code]

text \<open>\<^verbatim>\<open>for _, d := range directions[p]\<close>\<close>

fun directions_loop ::
  "Position \<Rightarrow> Piece \<Rightarrow> Square \<Rightarrow> Square list \<Rightarrow> Move list \<Rightarrow> (panic + Move list) option" where
  "directions_loop pos p i [] moves = Some (Inr moves)"
| "directions_loop pos p i (d # ds) moves =
     (case ray pos p i d (i + d) moves of
        None \<Rightarrow> None
      | Some (Inl e) \<Rightarrow> Some (Inl e)
      | Some (Inr moves') \<Rightarrow> directions_loop pos p i ds moves')"

text \<open>\<^verbatim>\<open>for index, p := range pos.board\<close>, given the indices still to visit.\<close>

fun squares_loop :: "Position \<Rightarrow> nat list \<Rightarrow> Move list \<Rightarrow> (panic + Move list) option" where
  "squares_loop pos [] moves = Some (Inr moves)"
| "squares_loop pos (index # rest) moves =
     (let p = board pos ! index
      in if \<not> ours p then squares_loop pos rest moves
         else (case directions_loop pos p (int index) (directions p) moves of
                 None \<Rightarrow> None
               | Some (Inl e) \<Rightarrow> Some (Inl e)
               | Some (Inr moves') \<Rightarrow> squares_loop pos rest moves'))"

definition Moves :: "Position \<Rightarrow> (panic + Move list) option" where
  "Moves pos = squares_loop pos [0..<length (board pos)] []"

text \<open>
  What can be said of a move that the loop body appends while it walks from square \<open>i\<close>
  in direction \<open>d\<close> for the piece \<open>p\<close>: it is a castling move, which starts on a
  king, or it starts on \<open>i\<close> and ends on a cell that is neither padding nor an own
  piece, and for a pawn it passed the three pawn tests one step from \<open>i\<close>.
\<close>

definition emitted :: "Position \<Rightarrow> Piece \<Rightarrow> Square \<Rightarrow> Square \<Rightarrow> Move \<Rightarrow> bool" where
  "emitted pos p i d m =
     (at (board pos) (mfrom m) = Inr (CHR ''K'') \<or>
      (mfrom m = i \<and>
       (case at (board pos) (mto m) of
          Inl e \<Rightarrow> False
        | Inr q \<Rightarrow>
            q \<noteq> CHR '' '' \<and> (q \<noteq> CHR ''.'' \<longrightarrow> \<not> ours q) \<and>
            (p = CHR ''P'' \<longrightarrow> mto m = i + d \<and> pawn_break pos i d (mto m) q = Inr False))))"

text \<open>
  \<^verbatim>\<open>Square.String\<close> indexes two string constants, of 10 and of 12 bytes, and panics
  outside them. \<^verbatim>\<open>Move.String\<close> concatenates the two squares.
\<close>

definition String_square :: "Square \<Rightarrow> panic + string" where
  "String_square s =
     (case at '' abcdefgh '' (rem s 10) of
        Inl e \<Rightarrow> Inl e
      | Inr f \<Rightarrow>
          (case at ''  87654321  '' (quo s 10) of
             Inl e \<Rightarrow> Inl e
           | Inr r \<Rightarrow> Inr [f, r]))"

definition String_move :: "Move \<Rightarrow> panic + string" where
  "String_move m =
     (case String_square (mfrom m) of
        Inl e \<Rightarrow> Inl e
      | Inr a \<Rightarrow>
          (case String_square (mto m) of
             Inl e \<Rightarrow> Inl e
           | Inr b \<Rightarrow> Inr (a @ b)))"

text \<open>The zero value \<^verbatim>\<open>Position{board: b}\<close> that the tests and the front end build.\<close>

definition Position_of_board :: "Board \<Rightarrow> Position" where
  "Position_of_board b =
     \<lparr> board = b, score = 0, wc = (False, False), bc = (False, False), ep = 0, kp = 0 \<rparr>"

section \<open>Applying a move\<close>

text \<open>
  The piece-square tables of \<^verbatim>\<open>Position.value\<close>, a map from pieces to arrays of 120
  integers; a piece that is no key gives the zero array.
\<close>

definition pst :: "Piece \<Rightarrow> int list" where
  "pst p =
     (if p = CHR ''P'' then
        [0, 0, 0, 0, 0, 0, 0, 0, 0, 0,
         0, 0, 0, 0, 0, 0, 0, 0, 0, 0,
         0, 0, 0, 0, 0, 0, 0, 0, 0, 0,
         0, 178, 183, 186, 173, 202, 182, 185, 190, 0,
         0, 107, 129, 121, 144, 140, 131, 144, 107, 0,
         0, 83, 116, 98, 115, 114, 0, 115, 87, 0,
         0, 74, 103, 110, 109, 106, 101, 0, 77, 0,
         0, 78, 109, 105, 89, 90, 98, 103, 81, 0,
         0, 69, 108, 93, 63, 64, 86, 103, 69, 0,
         0, 0, 0, 0, 0, 0, 0, 0, 0, 0,
         0, 0, 0, 0, 0, 0, 0, 0, 0, 0,
         0, 0, 0, 0, 0, 0, 0, 0, 0, 0]
      else if p = CHR ''N'' then
        [0, 0, 0, 0, 0, 0, 0, 0, 0, 0,
         0, 0, 0, 0, 0, 0, 0, 0, 0, 0,
         0, 214, 227, 205, 205, 270, 225, 222, 210, 0,
         0, 277, 274, 380, 244, 284, 342, 276, 266, 0,
         0, 290, 347, 281, 354, 353, 307, 342, 278, 0,
         0, 304, 304, 325, 317, 313, 321, 305, 297, 0,
         0, 279, 285, 311, 301, 302, 315, 282, 0, 0,
         0, 262, 290, 293, 302, 298, 295, 291, 266, 0,
         0, 257, 265, 282, 0, 282, 0, 257, 260, 0,
         0, 206, 257, 254, 256, 261, 245, 258, 211, 0,
         0, 0, 0, 0, 0, 0, 0, 0, 0, 0,
         0, 0, 0, 0, 0, 0, 0, 0, 0, 0]
      else if p = CHR ''B'' then
        [0, 0, 0, 0, 0, 0, 0, 0, 0, 0,
         0, 0, 0, 0, 0, 0, 0, 0, 0, 0,
         0, 261, 242, 238, 244, 297, 213, 283, 270, 0,
         0, 309, 340, 355, 278, 281, 351, 322, 298, 0,
         0, 311, 359, 288, 361, 372, 310, 348, 306, 0,
         0, 345, 337, 340, 354, 346, 345, 335, 330, 0,
         0, 333, 330, 337, 343, 337, 336, 0, 327, 0,
         0, 334, 345, 344, 335, 328, 345, 340, 335, 0,
         0, 339, 340, 331, 326, 327, 326, 340, 336, 0,
         0, 313, 322, 305, 308, 306, 305, 310, 310, 0,
         0, 0, 0, 0, 0, 0, 0, 0, 0, 0,
         0, 0, 0, 0, 0, 0, 0, 0, 0, 0]
      else if p = CHR ''R'' then
        [0, 0, 0, 0, 0, 0, 0, 0, 0, 0,
         0, 0, 0, 0, 0, 0, 0, 0, 0, 0,
         0, 514, 508, 512, 483, 516, 512, 535, 529, 0,
         0, 534, 508, 535, 546, 534, 541, 513, 539, 0,
         0, 498, 514, 507, 512, 524, 506, 504, 494, 0,
         0, 0, 484, 495, 492, 497, 475, 470, 473, 0,
         0, 451, 444, 463, 458, 466, 450, 433, 449, 0,
         0, 437, 451, 437, 454, 454, 444, 453, 433, 0,
         0, 426, 441, 448, 453, 450, 436, 435, 426, 0,
         0, 449, 455, 461, 484, 477, 461, 448, 447, 0,
         0, 0, 0, 0, 0, 0, 0, 0, 0, 0,
         0, 0, 0, 0, 0, 0, 0, 0, 0, 0]
      else if p = CHR ''Q'' then
        [0, 0, 0, 0, 0, 0, 0, 0, 0, 0,
         0, 0, 0, 0, 0, 0, 0, 0, 0, 0,
         0, 935, 930, 921, 825, 998, 953, 1017, 955, 0,
         0, 943, 961, 989, 919, 949, 1005, 986, 953, 0,
         0, 927, 972, 961, 989, 1001, 992, 972, 931, 0,
         0, 930, 913, 951, 946, 954, 949, 916, 923, 0,
         0, 915, 914, 927, 924, 928, 919, 909, 907, 0,
         0, 899, 923, 916, 918, 913, 918, 913, 902, 0,
         0, 893, 911, 0, 910, 914, 914, 908, 891, 0,
         0, 890, 899, 898, 916, 898, 893, 895, 887, 0,
         0, 0, 0, 0, 0, 0, 0, 0, 0, 0,
         0, 0, 0, 0, 0, 0, 0, 0, 0, 0]
      else if p = CHR ''K'' then
        [0, 0, 0, 0, 0, 0, 0, 0, 0, 0,
         0, 0, 0, 0, 0, 0, 0, 0, 0, 0,
         0, 60004, 60054, 60047, 59901, 59901, 60060, 60083, 59938, 0,
         0, 59968, 60010, 60055, 60056, 60056, 60055, 60010, 60003, 0,
         0, 59938, 60012, 59943, 60044, 59933, 60028, 60037, 59969, 0,
         0, 59945, 60050, 60011, 59996, 59981, 60013, 0, 59951, 0,
         0, 59945, 59957, 59948, 59972, 59949, 59953, 59992, 59950, 0,
         0, 59953, 59958, 59957, 59921, 59936, 59968, 59971, 59968, 0,
         0, 59996, 60003, 59986, 59950, 59943, 59982, 60013, 60004, 0,
         0, 60017, 60030, 59997, 59986, 60006, 59999, 60040, 60018, 0,
         0, 0, 0, 0, 0, 0, 0, 0, 0, 0,
         0, 0, 0, 0, 0, 0, 0, 0, 0, 0]
      else replicate 120 0)"

text \<open>
  \<^verbatim>\<open>Position.value\<close>. The running \<^verbatim>\<open>score\<close> (here \<open>sc\<close>) is threaded through the four
  corrections in the order of the source; every table and board access is checked.
\<close>

definition value_capture :: "Piece \<Rightarrow> Square \<Rightarrow> int \<Rightarrow> panic + int" where
  "value_capture q j sc =
     (if q \<noteq> CHR ''.'' \<and> q \<noteq> CHR '' '' \<and> \<not> ours q
      then (case at (pst (Flip_piece q)) (Flip_square j) of
              Inl e \<Rightarrow> Inl e
            | Inr v \<Rightarrow> Inr (sc + v))
      else Inr sc)"

definition value_king_passant :: "Position \<Rightarrow> Square \<Rightarrow> int \<Rightarrow> panic + int" where
  "value_king_passant pos j sc =
     (if abs_go (j - kp pos) < 2
      then (case at (pst (CHR ''K'')) (Flip_square j) of
              Inl e \<Rightarrow> Inl e
            | Inr v \<Rightarrow> Inr (sc + v))
      else Inr sc)"

definition value_castling :: "Piece \<Rightarrow> Square \<Rightarrow> Square \<Rightarrow> int \<Rightarrow> panic + int" where
  "value_castling p i j sc =
     (if p = CHR ''K'' \<and> abs_go (i - j) = 2
      then (case at (pst (CHR ''R'')) (quo (i + j) 2) of
              Inl e \<Rightarrow> Inl e
            | Inr v \<Rightarrow>
                (if j < i then Inr (sc + v - pst (CHR ''R'') ! nat A1)
                 else Inr (sc + v - pst (CHR ''R'') ! nat H1)))
      else Inr sc)"

definition value_pawn :: "Position \<Rightarrow> Piece \<Rightarrow> Square \<Rightarrow> int \<Rightarrow> panic + int" where
  "value_pawn pos p j sc =
     (if p = CHR ''P''
      then (case (if A8 \<le> j \<and> j \<le> H8
                  then (case at (pst (CHR ''Q'')) j of
                          Inl e \<Rightarrow> Inl e
                        | Inr vq \<Rightarrow>
                            (case at (pst (CHR ''P'')) j of
                               Inl e \<Rightarrow> Inl e
                             | Inr vp \<Rightarrow> Inr (sc + (vq - vp))))
                  else Inr sc) of
              Inl e \<Rightarrow> Inl e
            | Inr score1 \<Rightarrow>
                (if j = ep pos
                 then (case at (pst (CHR ''P'')) (Flip_square (j + dS)) of
                         Inl e \<Rightarrow> Inl e
                       | Inr v \<Rightarrow> Inr (score1 + v))
                 else Inr score1))
      else Inr sc)"

definition value_move :: "Position \<Rightarrow> Move \<Rightarrow> panic + int" where
  "value_move pos m =
     (let i = mfrom m; j = mto m
      in case at (board pos) i of
           Inl e \<Rightarrow> Inl e
         | Inr p \<Rightarrow>
        (case at (board pos) j of
           Inl e \<Rightarrow> Inl e
         | Inr q \<Rightarrow>
        (case at (pst p) j of
           Inl e \<Rightarrow> Inl e
         | Inr vj \<Rightarrow>
        (case at (pst p) i of
           Inl e \<Rightarrow> Inl e
         | Inr vi \<Rightarrow>
        (case value_capture q j (vj - vi) of
           Inl e \<Rightarrow> Inl e
         | Inr score1 \<Rightarrow>
        (case value_king_passant pos j score1 of
           Inl e \<Rightarrow> Inl e
         | Inr score2 \<Rightarrow>
        (case value_castling p i j score2 of
           Inl e \<Rightarrow> Inl e
         | Inr score3 \<Rightarrow> value_pawn pos p j score3)))))))"

text \<open>
  \<^verbatim>\<open>Position.Move\<close> builds the successor \<^verbatim>\<open>np\<close> and returns \<^verbatim>\<open>np.Flip()\<close>. The steps
  on \<^verbatim>\<open>np\<close> are \<open>Move_rights\<close> (the four corner tests), \<open>Move_king\<close>, \<open>Move_pawn\<close>;
  \<open>Move_pre\<close> is \<^verbatim>\<open>np\<close> as it stands before the final flip.
\<close>

definition Move_rights :: "Square \<Rightarrow> Square \<Rightarrow> Position \<Rightarrow> Position" where
  "Move_rights i j np =
     (let np1 = (if i = A1 then np\<lparr>wc := (False, snd (wc np))\<rparr> else np);
          np2 = (if i = H1 then np1\<lparr>wc := (fst (wc np1), False)\<rparr> else np1);
          np3 = (if j = A8 then np2\<lparr>bc := (fst (bc np2), False)\<rparr> else np2)
      in if j = H8 then np3\<lparr>bc := (False, snd (bc np3))\<rparr> else np3)"

definition Move_king :: "Piece \<Rightarrow> Square \<Rightarrow> Square \<Rightarrow> Position \<Rightarrow> panic + Position" where
  "Move_king p i j np =
     (if p = CHR ''K''
      then (let np1 = np\<lparr>wc := (False, False)\<rparr>
            in if abs_go (j - i) = 2
               then (let np2 = (if j < i then np1\<lparr>board := (board np1)[nat H1 := CHR ''.'']\<rparr>
                                else np1\<lparr>board := (board np1)[nat A1 := CHR ''.'']\<rparr>)
                     in case put (board np2) (quo (i + j) 2) (CHR ''R'') of
                          Inl e \<Rightarrow> Inl e
                        | Inr b \<Rightarrow> Inr (np2\<lparr>board := b\<rparr>))
               else Inr np1)
      else Inr np)"

definition Move_pawn :: "Position \<Rightarrow> Piece \<Rightarrow> Square \<Rightarrow> Square \<Rightarrow> Position \<Rightarrow> panic + Position" where
  "Move_pawn pos p i j np =
     (if p = CHR ''P''
      then (case (if A8 \<le> j \<and> j \<le> H8
                  then (case put (board np) j (CHR ''Q'') of
                          Inl e \<Rightarrow> Inl e
                        | Inr b \<Rightarrow> Inr (np\<lparr>board := b\<rparr>))
                  else Inr np) of
              Inl e \<Rightarrow> Inl e
            | Inr np1 \<Rightarrow>
                (let np2 = (if j - i = 2 * dN then np1\<lparr>ep := i + dN\<rparr> else np1)
                 in if j = ep pos
                    then (case put (board np2) (j + dS) (CHR ''.'') of
                            Inl e \<Rightarrow> Inl e
                          | Inr b \<Rightarrow> Inr (np2\<lparr>board := b\<rparr>))
                    else Inr np2))
      else Inr np)"

definition Move_pre :: "Position \<Rightarrow> Move \<Rightarrow> panic + Position" where
  "Move_pre pos m =
     (let i = mfrom m; j = mto m
      in case at (board pos) (mfrom m) of
           Inl e \<Rightarrow> Inl e
         | Inr p \<Rightarrow>
        (case value_move pos m of
           Inl e \<Rightarrow> Inl e
         | Inr v \<Rightarrow>
        (case put (board pos) (mto m) p of
           Inl e \<Rightarrow> Inl e
         | Inr b1 \<Rightarrow>
        (case put b1 (mfrom m) (CHR ''.'') of
           Inl e \<Rightarrow> Inl e
         | Inr b2 \<Rightarrow>
        (case Move_king p i j
                (Move_rights i j (pos\<lparr>ep := 0, kp := 0, score := score pos + v, board := b2\<rparr>)) of
           Inl e \<Rightarrow> Inl e
         | Inr np \<Rightarrow> Move_pawn pos p i j np)))))"

definition Move :: "Position \<Rightarrow> Move \<Rightarrow> panic + Position" where
  "Move pos m = (case Move_pre pos m of Inl e \<Rightarrow> Inl e | Inr np \<Rightarrow> Inr (Flip_position np))"

section \<open>The tests' drivers and fixtures\<close>

text \<open>\<^verbatim>\<open>strings.Join\<close>\<close>

fun Join :: "string list \<Rightarrow> string \<Rightarrow> string" where
  "Join [] sep = []"
| "Join [x] sep = x"
| "Join (x # y # ys) sep = x @ sep @ Join (y # ys) sep"

fun String_moves :: "Move list \<Rightarrow> panic + string list" where
  "String_moves [] = Inr []"
| "String_moves (m # ms) =
     (case String_move m of
        Inl e \<Rightarrow> Inl e
      | Inr s \<Rightarrow> (case String_moves ms of Inl e \<Rightarrow> Inl e | Inr ss \<Rightarrow> Inr (s # ss)))"

text \<open>
  The body of \<^verbatim>\<open>TestMoves\<close>: parse the placement, wrap the board in a zero position,
  generate, print every move, sort the strings and join them with blanks. The number of
  generated moves is returned beside the text.
\<close>

definition generated_text :: "string \<Rightarrow> (panic + nat \<times> string) option" where
  "generated_text game =
     (case FEN game of
        Inl e \<Rightarrow> Some (Inl e)
      | Inr (b, err) \<Rightarrow>
          (case Moves (Position_of_board b) of
             None \<Rightarrow> None
           | Some (Inl e) \<Rightarrow> Some (Inl e)
           | Some (Inr ms) \<Rightarrow>
               (case String_moves ms of
                  Inl e \<Rightarrow> Some (Inl e)
                | Inr ss \<Rightarrow> Some (Inr (length ms, Join (sort ss) '' '')))))"

definition fixture_fen :: string where
  "fixture_fen = ''r4rk1/ppp2ppp/2n2n2/5P2/2pb4/2N2N2/PPP2PPP/RQ2K2R''"

definition golden :: string where
  "golden = ''a2a3 a2a4 b1c1 b1d1 b2b3 b2b4 c3a4 c3b5 c3d1 c3d5 c3e2 c3e4 e1d1 e1d2 e1e2 e1f1 f3d2 f3d4 f3e5 f3g1 f3g5 f3h4 g2g3 g2g4 h1f1 h1g1 h2h3 h2h4''"

definition start_fen :: string where
  "start_fen = ''rnbqkbnr/pppppppp/8/8/8/8/PPPPPPPP/RNBQKBNR w KQkq - 0 1''"

definition start_text :: string where
  "start_text =
     [CHR 0x0A] @ ''rnbqkbnr'' @ [CHR 0x0A] @ ''pppppppp'' @ [CHR 0x0A] @
     ''........'' @ [CHR 0x0A] @ ''........'' @ [CHR 0x0A] @
     ''........'' @ [CHR 0x0A] @ ''........'' @ [CHR 0x0A] @
     ''PPPPPPPP'' @ [CHR 0x0A] @ ''RNBQKBNR'' @ [CHR 0x0A]"

text \<open>What \<^verbatim>\<open>TestFEN\<close> looks at: the error, and the text of the board.\<close>

definition FEN_text :: "string \<Rightarrow> panic + (string \<times> string option)" where
  "FEN_text s = (case FEN s of Inl e \<Rightarrow> Inl e | Inr (b, err) \<Rightarrow> Inr (String_board b, err))"

definition FEN_error :: "string \<Rightarrow> panic + string option" where
  "FEN_error s = (case FEN s of Inl e \<Rightarrow> Inl e | Inr (b, err) \<Rightarrow> Inr err)"

definition start_board :: Board where
  "start_board = (case FEN start_fen of Inr (b, err) \<Rightarrow> b | Inl e \<Rightarrow> [])"

definition start_position :: Position where
  "start_position = Position_of_board start_board"

definition promotion_position :: Position where
  "promotion_position =
     Position_of_board
       (case FEN ''7K/3P4/8/8/8/8/1p6/k7'' of Inr (b, err) \<Rightarrow> b | Inl e \<Rightarrow> [])"

definition kp_position :: Position where
  "kp_position = start_position\<lparr>kp := 73\<rparr>"

definition castling_fen :: string where
  "castling_fen = ''4k3/8/8/8/8/8/8/R3K2R''"

definition castling_position :: "panic + Position" where
  "castling_position =
     (case FEN castling_fen of
        Inl e \<Rightarrow> Inl e
      | Inr (b, err) \<Rightarrow> Inr ((Position_of_board b)\<lparr>wc := (True, True)\<rparr>))"

definition Move_text :: "Move \<Rightarrow> panic + Position \<Rightarrow> panic + string" where
  "Move_text m x =
     (case x of
        Inl e \<Rightarrow> Inl e
      | Inr pos \<Rightarrow> (case Move_pre pos m of Inl e \<Rightarrow> Inl e | Inr np \<Rightarrow> Inr (String_board (board np))))"

section \<open>The branch-free absolute value\<close>

text \<open>
  Inside the 64-bit range, and away from its least element, \<open>abs_go\<close> is the absolute
  value. The values of \<^verbatim>\<open>TestAbs\<close> are an instance.
\<close>

lemma signed_drop_bit_63:
  "signed_drop_bit 63 (w :: 64 word) = (if sint w < 0 then - 1 else 0)"
proof -
  have a: "bit w 63 \<longleftrightarrow> sint w < 0"
    using bit_last_iff [of w] by simp
  have "signed_drop_bit 63 w = (if bit w 63 then - 1 else 0)"
  proof (rule bit_word_eqI)
    fix k :: nat
    assume "k < LENGTH(64)"
    then show "bit (signed_drop_bit 63 w) k \<longleftrightarrow> bit (if bit w 63 then - 1 else 0 :: 64 word) k"
      by (cases "k = 0") (auto simp: bit_signed_drop_bit_iff)
  qed
  then show ?thesis
    using a by simp
qed

lemma sint_word_of_int_64:
  "- (2 ^ 63) \<le> n \<Longrightarrow> n < 2 ^ 63 \<Longrightarrow> sint (word_of_int n :: 64 word) = n"
  by (simp add: sint_sbintrunc' signed_take_bit_int_eq_self)

lemma abs_go_eq:
  assumes "- (2 ^ 63) < n" "n < 2 ^ 63"
  shows "abs_go n = \<bar>n\<bar>"
proof -
  let ?w = "word_of_int n :: 64 word"
  have s: "sint ?w = n"
    using assms by (simp add: sint_word_of_int_64)
  show ?thesis
  proof (cases "n < 0")
    case False
    then show ?thesis
      using s by (simp add: abs_go_def signed_drop_bit_63)
  next
    case True
    have "?w XOR - 1 = NOT ?w"
      by simp
    moreover have "NOT ?w = - ?w - 1"
      by (rule not_eq_complement)
    ultimately have "(?w XOR - 1) - (- 1) = - ?w"
      by simp
    moreover have "sint (- ?w) = - n"
      using assms by (simp add: sint_word_minus s signed_take_bit_int_eq_self)
    ultimately show ?thesis
      using True s by (simp add: abs_go_def signed_drop_bit_63)
  qed
qed

lemma abs_test: "map abs_go [3, - 4, 0, 10000000000] = [3, 4, 0, 10000000000]"
  by code_simp

section \<open>The repository's tests on the model\<close>

text \<open>
  \<^verbatim>\<open>TestFEN\<close> reads six cells of a parsed board, \<^verbatim>\<open>TestBoardSwap\<close> flips a board twice
  and reads cells of the board and of its flip, \<^verbatim>\<open>TestSquare\<close> prints six squares.
\<close>

lemma FEN_test_squares:
  "map_sum id (\<lambda>(b, err). (err, map (\<lambda>k. b ! k) [28, 34, 82, 91, 21, 20]))
     (FEN ''7K/3P4/8/8/8/8/1p6/k7'') = Inr (None, ''KPpk. '')"
  by code_simp

lemma Flip_test_squares:
  "map_sum id (\<lambda>(b, err). (err, Flip_board (Flip_board b) = b, map (\<lambda>k. b ! k) [22, 33, 91],
       map (\<lambda>k. Flip_board b ! k) [28, 86, 97]))
     (FEN ''1k6/2p5/8/8/8/8/8/K7'') = Inr (None, True, ''kpK'', ''kPK'')"
  by code_simp

lemma String_square_test:
  "map String_square [A1, H1, A1 + 1, A1 - 10, A8, H8] =
     [Inr ''a1'', Inr ''h1'', Inr ''b1'', Inr ''a2'', Inr ''a8'', Inr ''h8'']"
  by code_simp

lemma String_square_panics: "String_square (- 1) = Inl IndexOutOfRange \<and> String_square 120 = Inl IndexOutOfRange"
  by code_simp

section \<open>Flipping twice\<close>

lemma Flip_piece_twice: "valid_piece p \<Longrightarrow> Flip_piece (Flip_piece p) = p"
  by (auto simp: valid_piece_def Flip_piece_def)

lemma Flip_piece_valid: "valid_piece p \<Longrightarrow> valid_piece (Flip_piece p)"
  by (auto simp: valid_piece_def Flip_piece_def)

lemma length_Flip_loop: "length (Flip_loop a b k) = length b"
  by (induction a b k rule: Flip_loop.induct) simp_all

lemma nth_Flip_loop:
  "k \<le> length b \<Longrightarrow> i < length b \<Longrightarrow>
   Flip_loop a b k ! i = (if i < k then Flip_piece (a ! (length a - i - 1)) else b ! i)"
proof (induction a b k rule: Flip_loop.induct)
  case (1 a b)
  then show ?case by simp
next
  case (2 a b k)
  then show ?case by (cases "i = k") auto
qed

lemma length_Flip_board: "length (Flip_board a) = length a"
  by (simp add: Flip_board_def length_Flip_loop)

lemma nth_Flip_board:
  "i < length a \<Longrightarrow> Flip_board a ! i = Flip_piece (a ! (length a - i - 1))"
  by (simp add: Flip_board_def nth_Flip_loop)

lemma Flip_board_rev: "Flip_board a = map Flip_piece (rev a)"
  by (rule nth_equalityI) (simp_all add: length_Flip_board nth_Flip_board rev_nth)

lemma Flip_board_twice:
  assumes "\<forall>p \<in> set a. valid_piece p"
  shows "Flip_board (Flip_board a) = a"
proof -
  have "map (Flip_piece \<circ> Flip_piece) a = map id a"
    using assms by (intro map_cong) (simp_all add: Flip_piece_twice)
  then show ?thesis
    by (simp add: Flip_board_rev rev_map)
qed

text \<open>
  Claim C4. Flipping is an involution: a board of 120 cells that all hold one of the
  fourteen valid codes is restored by flipping it twice, and so is every coordinate
  between 0 and 119 under \<open>c \<mapsto> 119 - c\<close>.
\<close>

theorem C4_flip_involution:
  "(is_board B \<and> list_all valid_piece B \<longrightarrow> Flip_board (Flip_board B) = B) \<and>
   (0 \<le> c \<and> c < 120 \<longrightarrow> Flip_square c = 119 - c \<and> Flip_square (Flip_square c) = c)"
  by (simp add: Flip_board_twice Flip_square_def list_all_iff)

theorem C4_flip_involution_witness:
  "is_board start_board \<and> list_all valid_piece start_board \<and>
   Flip_board (Flip_board start_board) = start_board \<and>
   (0::int) \<le> 35 \<and> (35::int) < 120 \<and> Flip_square 35 = 119 - 35 \<and>
   Flip_square (Flip_square 35) = 35"
proof -
  have h: "is_board start_board \<and> list_all valid_piece start_board"
    by code_simp
  show ?thesis
    using h C4_flip_involution [of start_board 35] by (simp add: Flip_square_def)
qed

text \<open>
  Negating twice and reflecting twice through 119 are the identity on 64-bit machine
  integers too, so the unbounded integers of the model lose nothing in the next theorem.
\<close>

lemma flip_twice_wrapping: "- (- s) = (s :: 64 word) \<and> 119 - (119 - c) = (c :: 64 word)"
  by simp

text \<open>
  Claim C9. Flipping a snapshot twice restores it: the board (when its cells hold valid
  codes), the score, both pairs of castling flags and both coordinates.
\<close>

theorem C9_position_flip_involution:
  "is_board (board pos) \<Longrightarrow> list_all valid_piece (board pos) \<Longrightarrow>
   Flip_position (Flip_position pos) = pos \<and>
   board (Flip_position (Flip_position pos)) = board pos \<and>
   score (Flip_position (Flip_position pos)) = score pos \<and>
   wc (Flip_position (Flip_position pos)) = wc pos \<and>
   bc (Flip_position (Flip_position pos)) = bc pos \<and>
   ep (Flip_position (Flip_position pos)) = ep pos \<and>
   kp (Flip_position (Flip_position pos)) = kp pos"
  by (simp add: Flip_position_def Flip_board_twice Flip_square_def list_all_iff)

theorem C9_position_flip_involution_witness:
  "is_board (board start_position) \<and> list_all valid_piece (board start_position) \<and>
   Flip_position (Flip_position start_position) = start_position"
proof -
  have h: "is_board (board start_position)" "list_all valid_piece (board start_position)"
    by code_simp+
  show ?thesis
    using h C9_position_flip_involution [OF h] by simp
qed

section \<open>Parsing and rendering\<close>

text \<open>
  The two facts \<^verbatim>\<open>TestFEN\<close> checks: the start position parses without an error and
  renders as the expected text, and each of the nine malformed strings of the test
  comes back with an error.
\<close>

lemma FEN_start_position: "FEN_text start_fen = Inr (start_text, None)"
  by code_simp

lemma FEN_rejects_test_inputs:
  "map FEN_error
     ['''', ''hello'', ''8/8/8/8/8/8/8/8/8'', ''8/8/8/8/8/8/8/9'', ''8/8/8/8/8/8/8'',
      ''8/1p1/8/8/8/8/8/8'', ''8/1x7/8/8/8/8/8/8'', ''8/1 7/8/8/8/8/8/8'',
      ''8/1.7/8/8/8/8/8/8''] =
   [Inr (Some ''FEN should have 8 rows''), Inr (Some ''FEN should have 8 rows''),
    Inr (Some ''FEN should have 8 rows''), Inr (Some ''invalid piece value: 9''),
    Inr (Some ''FEN should have 8 rows''), Inr (Some ''invalid row length''),
    Inr (Some ''invalid piece value: x''), Inr (Some ''FEN should have 8 rows''),
    Inr (Some ''invalid piece value: .'')]"
  by code_simp

text \<open>
  Claim C7 says that every malformed input is rejected, a row of the wrong length among
  them. The test of the row length is \<^verbatim>\<open>index%10 != 9\<close>, which a first row of 18
  squares passes: the string below is returned as a board, with \<^verbatim>\<open>nil\<close> for the error
  and with dots written into the padding cells 29 and 30.
\<close>

theorem C7_long_row_accepted:
  "FEN_error ''8811/8/8/8/8/8/8/8'' = Inr None \<and>
   map_sum id (\<lambda>(b, err). (b ! 29, b ! 30)) (FEN ''8811/8/8/8/8/8/8/8'') = Inr (CHR ''.'', CHR ''.'')"
  by code_simp

text \<open>A last row that runs past cell 119 is a panic, neither a board nor an error.\<close>

lemma FEN_overlong_last_row_panics: "FEN ''8/8/8/8/8/8/8/8888'' = Inl IndexOutOfRange"
  by code_simp

section \<open>The generated moves of the fixture\<close>

text \<open>
  Claim C2, as amended. From the placement of \<^verbatim>\<open>TestMoves\<close>, parsed without an error
  and wrapped in a zero position, \<open>Moves\<close> returns 28 moves, and their sorted
  algebraic strings, joined by blanks, are the golden text of the test (which has 28
  entries).
\<close>

theorem C2_fixture_moves:
  "map_sum id snd (FEN fixture_fen) = Inr None \<and>
   generated_text fixture_fen = Some (Inr (28, golden))"
  by code_simp

text \<open>The claim as stated asks for 30 moves; the generator does not return 30.\<close>

theorem C2_not_thirty_moves:
  "map_option (map_sum id fst) (generated_text fixture_fen) = Some (Inr 28) \<and> (28::nat) \<noteq> 30"
  by code_simp

section \<open>Castling\<close>

text \<open>The generator emits both castling moves of the king on e1 when both flags are set.\<close>

lemma castling_moves_generated:
  "map_sum id (\<lambda>pos. map_option (map_sum id
       (\<lambda>ms. \<lparr>mfrom = 95, mto = 97\<rparr> \<in> set ms \<and> \<lparr>mfrom = 95, mto = 93\<rparr> \<in> set ms)) (Moves pos))
     castling_position = Inr (Some (Inr True))"
  by code_simp

text \<open>
  Claim C3 wants the rook's home corner empty after castling: H1 when the king goes
  towards H1, A1 when it goes towards A1. \<open>Move_king\<close> clears the other corner. With
  king on e1 (95), rooks on a1 (91) and h1 (98) and both flags set, the king's move to g1 leaves a rook on h1 and on f1
  and empties a1; its move to c1 leaves a rook on a1 and on d1 and empties h1. The
  boards are those of \<^verbatim>\<open>np\<close> before the final flip.
\<close>

theorem C3_castling_keeps_rook:
  "map_sum id (\<lambda>pos. (board pos ! 91, board pos ! 95, board pos ! 98, wc pos)) castling_position =
     Inr (CHR ''R'', CHR ''K'', CHR ''R'', (True, True)) \<and>
   Move_text \<lparr>mfrom = 95, mto = 97\<rparr> castling_position =
     Inr ([CHR 0x0A] @ ''....k...'' @ [CHR 0x0A] @ ''........'' @ [CHR 0x0A] @
          ''........'' @ [CHR 0x0A] @ ''........'' @ [CHR 0x0A] @
          ''........'' @ [CHR 0x0A] @ ''........'' @ [CHR 0x0A] @
          ''........'' @ [CHR 0x0A] @ ''.....RKR'' @ [CHR 0x0A]) \<and>
   Move_text \<lparr>mfrom = 95, mto = 93\<rparr> castling_position =
     Inr ([CHR 0x0A] @ ''....k...'' @ [CHR 0x0A] @ ''........'' @ [CHR 0x0A] @
          ''........'' @ [CHR 0x0A] @ ''........'' @ [CHR 0x0A] @
          ''........'' @ [CHR 0x0A] @ ''........'' @ [CHR 0x0A] @
          ''........'' @ [CHR 0x0A] @ ''R.KR....'' @ [CHR 0x0A])"
  by code_simp

section \<open>Promotion\<close>

lemma length_pst: "length (pst p) = 120"
  by (simp add: pst_def)

lemma at_Inr: "0 \<le> i \<Longrightarrow> i < int (length xs) \<Longrightarrow> at xs i = Inr (xs ! nat i)"
  by (simp add: at_def)

lemma at_Inr_iff: "at xs i = Inr x \<longleftrightarrow> 0 \<le> i \<and> i < int (length xs) \<and> x = xs ! nat i"
  by (auto simp: at_def)

lemma put_Inr: "0 \<le> i \<Longrightarrow> i < int (length xs) \<Longrightarrow> put xs i x = Inr (xs[nat i := x])"
  by (simp add: put_def)

lemma put_Inr_iff: "put xs i x = Inr ys \<longleftrightarrow> 0 \<le> i \<and> i < int (length xs) \<and> ys = xs[nat i := x]"
  by (auto simp: put_def)

lemma quo_2_nonneg: "0 \<le> a \<Longrightarrow> quo a 2 = a div 2"
  by (simp add: quo_def sgn_if)

lemma value_capture_total:
  "0 \<le> j \<Longrightarrow> j < 120 \<Longrightarrow> \<exists>v. value_capture q j sc = Inr v"
  by (simp add: value_capture_def at_def length_pst Flip_square_def)

lemma value_king_passant_total:
  "0 \<le> j \<Longrightarrow> j < 120 \<Longrightarrow> \<exists>v. value_king_passant pos j sc = Inr v"
  by (simp add: value_king_passant_def at_def length_pst Flip_square_def)

lemma value_castling_total:
  "0 \<le> i \<Longrightarrow> i < 120 \<Longrightarrow> 0 \<le> j \<Longrightarrow> j < 120 \<Longrightarrow> \<exists>v. value_castling p i j sc = Inr v"
proof -
  assume "0 \<le> i" "i < 120" "0 \<le> j" "j < 120"
  then have "0 \<le> (i + j) div 2" "(i + j) div 2 < 120"
    by linarith+
  then show ?thesis
    using \<open>0 \<le> i\<close> \<open>0 \<le> j\<close>
    by (simp add: value_castling_def at_def length_pst quo_2_nonneg)
qed

lemma value_pawn_total:
  "0 \<le> j \<Longrightarrow> j < 110 \<Longrightarrow> \<exists>v. value_pawn pos p j sc = Inr v"
  by (simp add: value_pawn_def at_def length_pst Flip_square_def dS_def)

lemma value_move_total:
  assumes "is_board (board pos)" "0 \<le> mfrom m" "mfrom m < 120" "0 \<le> mto m" "mto m < 110"
  shows "\<exists>v. value_move pos m = Inr v"
proof -
  let ?i = "mfrom m" and ?j = "mto m"
  let ?p = "board pos ! nat ?i" and ?q = "board pos ! nat ?j"
  have len: "length (board pos) = 120"
    using assms(1) by (simp add: is_board_def)
  obtain s1 where s1: "value_capture ?q ?j (pst ?p ! nat ?j - pst ?p ! nat ?i) = Inr s1"
    using value_capture_total [of ?j ?q] assms by fastforce
  obtain s2 where s2: "value_king_passant pos ?j s1 = Inr s2"
    using value_king_passant_total [of ?j pos s1] assms by auto
  obtain s3 where s3: "value_castling ?p ?i ?j s2 = Inr s3"
    using value_castling_total [of ?i ?j ?p s2] assms by auto
  obtain s4 where s4: "value_pawn pos ?p ?j s3 = Inr s4"
    using value_pawn_total [of ?j pos ?p s3] assms by auto
  show ?thesis
    using assms len s1 s2 s3 s4
    by (simp add: value_move_def at_def length_pst)
qed

lemma Move_pawn_promotes:
  assumes "is_board (board np)" "A8 \<le> j" "j \<le> H8"
  shows "\<exists>np'. Move_pawn pos (CHR ''P'') i j np = Inr np' \<and> is_board (board np') \<and>
           board np' ! nat j = CHR ''Q''"
proof -
  have j: "21 \<le> j" "j \<le> 28"
    using assms by (simp_all add: A8_def H8_def)
  have len: "length (board np) = 120"
    using assms(1) by (simp add: is_board_def)
  show ?thesis
    using j len
    by (auto simp: Move_pawn_def put_def Let_def A8_def H8_def dS_def is_board_def nat_add_distrib)
qed

lemma Move_king_other: "p \<noteq> CHR ''K'' \<Longrightarrow> Move_king p i j np = Inr np"
  by (simp add: Move_king_def)

lemma board_Move_rights: "board (Move_rights i j np) = board np"
  by (simp add: Move_rights_def Let_def)

text \<open>
  Claim C10. When the origin holds an own pawn and the destination lies between A8 and
  H8, \<open>Move\<close> does not panic and the board of \<^verbatim>\<open>np\<close>, before the final flip, holds a
  queen on the destination. A move is its two squares and nothing else, so there is no
  other outcome for it.
\<close>

theorem C10_promotion_to_queen:
  assumes "is_board (board pos)"
    and "0 \<le> mfrom m" and "mfrom m < 120"
    and "board pos ! nat (mfrom m) = CHR ''P''"
    and "A8 \<le> mto m" and "mto m \<le> H8"
  shows "\<exists>np. Move_pre pos m = Inr np \<and> Move pos m = Inr (Flip_position np) \<and>
           board np ! nat (mto m) = CHR ''Q''"
proof -
  have j: "0 \<le> mto m" "mto m < 110" "mto m < 120"
    using assms(5,6) by (simp_all add: A8_def H8_def)
  have len: "length (board pos) = 120"
    using assms(1) by (simp add: is_board_def)
  obtain v where v: "value_move pos m = Inr v"
    using value_move_total [OF assms(1-3) j(1,2)] by blast
  define np0 where
    "np0 = Move_rights (mfrom m) (mto m)
             (pos\<lparr>ep := 0, kp := 0, score := score pos + v,
                  board := (board pos)[nat (mto m) := CHR ''P'', nat (mfrom m) := CHR ''.'']\<rparr>)"
  have "is_board (board np0)"
    using len by (simp add: np0_def board_Move_rights is_board_def)
  then obtain np where np: "Move_pawn pos (CHR ''P'') (mfrom m) (mto m) np0 = Inr np"
      "board np ! nat (mto m) = CHR ''Q''"
    using Move_pawn_promotes [OF _ assms(5,6)] by blast
  have "Move_pre pos m = Inr np"
    using assms(2-4) j len v np(1)
    by (simp add: Move_pre_def at_def put_def Move_king_other np0_def)
  then show ?thesis
    using np(2) by (simp add: Move_def)
qed

theorem C10_promotion_to_queen_witness:
  "is_board (board promotion_position) \<and> board promotion_position ! nat 34 = CHR ''P'' \<and>
   A8 \<le> 24 \<and> 24 \<le> H8 \<and>
   (\<exists>np. Move_pre promotion_position \<lparr>mfrom = 34, mto = 24\<rparr> = Inr np \<and>
         Move promotion_position \<lparr>mfrom = 34, mto = 24\<rparr> = Inr (Flip_position np) \<and>
         board np ! nat 24 = CHR ''Q'')"
proof -
  have h: "is_board (board promotion_position)"
    "board promotion_position ! nat (mfrom \<lparr>mfrom = 34, mto = 24\<rparr>) = CHR ''P''"
    "A8 \<le> mto \<lparr>mfrom = 34, mto = 24\<rparr>" "mto \<lparr>mfrom = 34, mto = 24\<rparr> \<le> H8"
    by code_simp+
  show ?thesis
    using h C10_promotion_to_queen [OF h(1) _ _ h(2-4)] by simp
qed

section \<open>The en-passant coordinate of a successor\<close>

lemma ep_Move_rights: "ep (Move_rights i j np) = ep np"
  by (simp add: Move_rights_def Let_def)

lemma ep_Move_king: "Move_king p i j np = Inr np' \<Longrightarrow> ep np' = ep np"
  by (auto simp: Move_king_def Let_def split: if_splits sum.splits)

lemma ep_Move_pawn:
  "Move_pawn pos p i j np = Inr np' \<Longrightarrow> \<not> (p = CHR ''P'' \<and> j - i = 2 * dN) \<Longrightarrow> ep np' = ep np"
  by (auto simp: Move_pawn_def Let_def split: if_splits sum.splits)

text \<open>
  \<^verbatim>\<open>Position.Move\<close> writes 0 into \<^verbatim>\<open>np.ep\<close>, and only a pawn's double step writes a
  square after that. The final \<^verbatim>\<open>np.Flip()\<close> reflects the coordinate whatever it is, so
  the 0 comes out as 119.
\<close>

lemma Move_pre_resets_ep:
  assumes "Move_pre pos m = Inr np"
    and "\<not> (board pos ! nat (mfrom m) = CHR ''P'' \<and> mto m - mfrom m = 2 * dN)"
  shows "ep np = 0 \<and> Move pos m = Inr (Flip_position np) \<and> ep (Flip_position np) = 119"
proof -
  from assms(1) obtain p v b1 b2 np1 where
    p: "at (board pos) (mfrom m) = Inr p" and
    k: "Move_king p (mfrom m) (mto m)
          (Move_rights (mfrom m) (mto m)
             (pos\<lparr>ep := 0, kp := 0, score := score pos + v, board := b2\<rparr>)) = Inr np1" and
    w: "Move_pawn pos p (mfrom m) (mto m) np1 = Inr np"
    by (auto simp: Move_pre_def Let_def split: sum.splits)
  have "p = board pos ! nat (mfrom m)"
    using p by (simp add: at_Inr_iff)
  then have "ep np = ep np1"
    using ep_Move_pawn [OF w] assms(2) by blast
  also have "\<dots> = 0"
    using ep_Move_king [OF k] by (simp add: ep_Move_rights)
  finally show ?thesis
    using assms(1) by (simp add: Move_def Flip_position_def Flip_square_def)
qed

text \<open>
  Claim C6 says that the successor of a move that is no double step has en-passant
  coordinate 0, the value for no target. In the start position, whose own en-passant
  coordinate is 0, the single step of the king's pawn from e2 (85) to e3 (75) gives a
  \<^verbatim>\<open>np\<close> with en-passant coordinate 0 before the final flip, and a successor with 119.
  Flipping that successor, as the null move of the search does, gives 0 again: the
  same absence of a target is stored as 0 or as 119, depending on the path.
\<close>

theorem C6_successor_ep_not_zero:
  "ep start_position = 0 \<and>
   board start_position ! nat 85 = CHR ''P'' \<and> (75::int) - 85 \<noteq> 2 * dN \<and>
   map_sum id ep (Move_pre start_position \<lparr>mfrom = 85, mto = 75\<rparr>) = Inr 0 \<and>
   map_sum id ep (Move start_position \<lparr>mfrom = 85, mto = 75\<rparr>) = Inr 119 \<and>
   map_sum id (\<lambda>np. ep (Flip_position np)) (Move start_position \<lparr>mfrom = 85, mto = 75\<rparr>) = Inr 0"
  by code_simp

section \<open>Move generation stays on the board\<close>

lemma inner_range: "inner s \<Longrightarrow> 21 \<le> s \<and> s \<le> 98"
  unfolding inner_def by presburger

lemma padded_length: "padded b \<Longrightarrow> length b = 120"
  by (simp add: padded_def)

lemma padded_outer:
  assumes "padded b" "0 \<le> j" "j < 120" "\<not> inner j"
  shows "b ! nat j = CHR '' ''"
proof -
  have "nat j \<in> set [0..<120]"
    using assms(2,3) by auto
  then have "if inner (int (nat j)) then b ! nat j \<in> set ''PNBRQKpnbrqk.'' else b ! nat j = CHR '' ''"
    using assms(1) unfolding padded_def list_all_iff by blast
  then show ?thesis
    using assms(2,4) by simp
qed

lemma directions_bound:
  "d \<in> set (directions p) \<Longrightarrow> d \<noteq> 0 \<and> - 21 \<le> d \<and> d \<le> 21"
  by (auto simp: directions_def dN_def dE_def dS_def dW_def split: if_splits)

lemma ray_step_in_range:
  "ray_step pos p i d j moves = Inr x \<Longrightarrow> 0 \<le> j \<and> j < int (length (board pos))"
  by (auto simp: ray_step_def at_def split: if_splits)

text \<open>A rule for the loop: an invariant of the body gives a result of the loop.\<close>

lemma ray_rule:
  assumes d: "d \<noteq> 0"
    and init: "I j moves"
    and cont: "\<And>j moves moves'. I j moves \<Longrightarrow> ray_step pos p i d j moves = Inr (False, moves') \<Longrightarrow> I (j + d) moves'"
    and brk: "\<And>j moves moves'. I j moves \<Longrightarrow> ray_step pos p i d j moves = Inr (True, moves') \<Longrightarrow> Q (Inr moves')"
    and fail: "\<And>j moves e. I j moves \<Longrightarrow> ray_step pos p i d j moves = Inl e \<Longrightarrow> Q (Inl e)"
  shows "\<exists>r. ray pos p i d j moves = Some r \<and> Q r"
  using init
proof (induction "if 0 < d then nat (int (length (board pos)) - j) else nat (j + 1)"
    arbitrary: j moves rule: less_induct)
  case less
  show ?case
  proof (cases "ray_step pos p i d j moves")
    case (Inl e)
    then have "ray pos p i d j moves = Some (Inl e)"
      by (subst ray.simps) simp
    then show ?thesis
      using fail [OF less.prems Inl] by simp
  next
    case (Inr x)
    obtain b moves' where x: "x = (b, moves')"
      by (cases x)
    show ?thesis
    proof (cases b)
      case True
      then have "ray pos p i d j moves = Some (Inr moves')"
        using Inr x by (subst ray.simps) simp
      then show ?thesis
        using brk [OF less.prems] Inr x True by simp
    next
      case False
      have rng: "0 \<le> j \<and> j < int (length (board pos))"
        using ray_step_in_range [OF Inr] .
      have dec: "(if 0 < d then nat (int (length (board pos)) - (j + d)) else nat (j + d + 1))
                 < (if 0 < d then nat (int (length (board pos)) - j) else nat (j + 1))"
        using rng d by auto
      have inv: "I (j + d) moves'"
        using cont [OF less.prems] Inr x False by simp
      have "ray pos p i d j moves = ray pos p i d (j + d) moves'"
        using Inr x False by (subst ray.simps) simp
      then show ?thesis
        using less.hyps [OF dec inv] by simp
    qed
  qed
qed

lemma pawn_break_total:
  "0 \<le> i + dN \<Longrightarrow> i + dN < int (length (board pos)) \<Longrightarrow> \<exists>pb. pawn_break pos i d j q = Inr pb"
  by (auto simp: pawn_break_def at_def)

lemma castling_total:
  "0 \<le> j + dW \<Longrightarrow> j + dE < int (length (board pos)) \<Longrightarrow> dW < dE \<Longrightarrow>
   \<exists>cs. castling pos i j moves = Inr cs"
  by (auto simp: castling_def at_def)

lemma ray_step_padded:
  assumes pad: "padded (board pos)"
    and i: "inner i"
    and j: "inner (j - d)"
    and d: "d \<in> set (directions p)"
  shows "\<exists>b ms. ray_step pos p i d j moves = Inr (b, ms) \<and> (\<not> b \<longrightarrow> inner j)"
proof -
  have len: "length (board pos) = 120"
    using pad by (rule padded_length)
  have jr: "0 \<le> j" "j < 120"
    using inner_range [OF j] directions_bound [OF d] by auto
  define q where "q = board pos ! nat j"
  have atj: "at (board pos) j = Inr q"
    using jr len by (simp add: at_def q_def)
  show ?thesis
  proof (cases "q = CHR '' '' \<or> (q \<noteq> CHR ''.'' \<and> ours q)")
    case True
    then show ?thesis
      using atj by (auto simp: ray_step_def)
  next
    case False
    then have "inner j"
      using padded_outer [OF pad jr] unfolding q_def by auto
    then have j1: "0 \<le> j + dE" "j + dE < 120" "0 \<le> j + dW" "j + dW < 120"
      using inner_range [of j] by (simp_all add: dE_def dW_def)
    have i1: "0 \<le> i + dN" "i + dN < 120"
      using inner_range [OF i] by (simp_all add: dN_def)
    obtain pb where pb: "pawn_break pos i d j q = Inr pb"
      using pawn_break_total [of i pos d j q] i1 len by auto
    obtain cs where cs: "castling pos i j (moves @ [\<lparr>mfrom = i, mto = j\<rparr>]) = Inr cs"
      using castling_total [of j pos i] j1 len by (auto simp: dE_def dW_def)
    show ?thesis
      using atj False pb cs \<open>inner j\<close>
      by (auto simp: ray_step_def Let_def)
  qed
qed

lemma ray_padded:
  assumes pad: "padded (board pos)"
    and i: "inner i"
    and d: "d \<in> set (directions p)"
  shows "\<exists>ms. ray pos p i d (i + d) moves = Some (Inr ms)"
proof -
  have "\<exists>r. ray pos p i d (i + d) moves = Some r \<and> (\<exists>ms. r = Inr ms)"
  proof (rule ray_rule [where I = "\<lambda>j moves. inner (j - d)"])
    show "d \<noteq> 0"
      using directions_bound [OF d] by simp
    show "inner (i + d - d)"
      using i by simp
  next
    fix j moves moves'
    assume "inner (j - d)" "ray_step pos p i d j moves = Inr (False, moves')"
    then show "inner (j + d - d)"
      using ray_step_padded [OF pad i _ d, of j moves] by auto
  next
    fix j moves moves'
    show "\<exists>ms. (Inr moves' :: panic + Move list) = Inr ms"
      by simp
  next
    fix j moves e
    assume "inner (j - d)" "ray_step pos p i d j moves = Inl e"
    then show "\<exists>ms. (Inl e :: panic + Move list) = Inr ms"
      using ray_step_padded [OF pad i _ d, of j moves] by auto
  qed
  then show ?thesis by blast
qed

lemma directions_loop_padded:
  assumes pad: "padded (board pos)"
    and i: "inner i"
  shows "set ds \<subseteq> set (directions p) \<Longrightarrow> \<exists>ms. directions_loop pos p i ds moves = Some (Inr ms)"
proof (induction ds arbitrary: moves)
  case Nil
  show ?case by simp
next
  case (Cons d ds)
  then obtain ms where "ray pos p i d (i + d) moves = Some (Inr ms)"
    using ray_padded [OF pad i, of d p moves] by auto
  then show ?case
    using Cons by simp
qed

lemma ours_not_blank: "ours p \<Longrightarrow> p \<noteq> CHR '' ''"
  by (auto simp: ours_def piece_value_def)

lemma squares_loop_padded:
  assumes pad: "padded (board pos)"
  shows "\<forall>k \<in> set idxs. k < 120 \<Longrightarrow> \<exists>ms. squares_loop pos idxs moves = Some (Inr ms)"
proof (induction idxs arbitrary: moves)
  case Nil
  show ?case by simp
next
  case (Cons k idxs)
  show ?case
  proof (cases "ours (board pos ! k)")
    case False
    then show ?thesis
      using Cons by simp
  next
    case True
    have "inner (int k)"
      using padded_outer [OF pad, of "int k"] ours_not_blank [OF True] Cons.prems by auto
    then obtain ms where
      "directions_loop pos (board pos ! k) (int k) (directions (board pos ! k)) moves = Some (Inr ms)"
      using directions_loop_padded [OF pad, of "int k" "directions (board pos ! k)"] by blast
    then show ?thesis
      using True Cons by simp
  qed
qed

text \<open>
  Claim C8. On a board that satisfies the padding invariant, \<open>Moves\<close> returns, and
  what it returns is a list of moves: no board access of the generator, each of which is
  checked in the model, falls outside the 120 cells.
\<close>

theorem C8_generate_total:
  "padded (board pos) \<Longrightarrow> \<exists>ms. Moves pos = Some (Inr ms)"
  using squares_loop_padded [of pos "[0..<120]" "[]"]
  by (simp add: Moves_def padded_length)

theorem C8_generate_total_witness:
  "padded (board start_position) \<and> (\<exists>ms. Moves start_position = Some (Inr ms))"
proof -
  have h: "padded (board start_position)"
    by code_simp
  show ?thesis
    using h C8_generate_total [OF h] by simp
qed

section \<open>Diagonal pawn moves\<close>

lemma castling_frame:
  "castling pos i j ms = Inr ms' \<Longrightarrow>
   \<exists>new. ms' = ms @ new \<and> (\<forall>m \<in> set new. at (board pos) (mfrom m) = Inr (CHR ''K''))"
  by (auto simp: castling_def at_def split: if_splits)

lemma ray_step_continue:
  "ray_step pos p i d j moves = Inr (False, moves') \<Longrightarrow> p \<noteq> CHR ''P''"
  by (auto simp: ray_step_def Let_def split: sum.splits if_splits)

lemma ray_step_frame:
  assumes "ray_step pos p i d j moves = Inr (b, moves')"
    and "p = CHR ''P'' \<longrightarrow> j = i + d"
  shows "\<exists>new. moves' = moves @ new \<and> (\<forall>m \<in> set new. emitted pos p i d m)"
proof -
  obtain q where q: "at (board pos) j = Inr q"
    using assms(1) by (auto simp: ray_step_def split: sum.splits)
  show ?thesis
  proof (cases "q = CHR '' '' \<or> (q \<noteq> CHR ''.'' \<and> ours q)")
    case True
    then have "moves' = moves"
      using assms(1) q by (simp add: ray_step_def)
    then show ?thesis by simp
  next
    case False
    obtain blocked where bl:
      "(if p = CHR ''P'' then pawn_break pos i d j q else Inr False) = Inr blocked"
      using assms(1) q False by (auto simp: ray_step_def split: sum.splits)
    show ?thesis
    proof (cases blocked)
      case True
      then have "moves' = moves"
        using assms(1) q False bl by (simp add: ray_step_def)
      then show ?thesis by simp
    next
      case nb: False
      let ?m = "\<lparr>mfrom = i, mto = j\<rparr>"
      have em: "emitted pos p i d ?m"
        using q False bl nb assms(2) by (auto simp: emitted_def split: if_splits)
      show ?thesis
      proof (cases "p = CHR ''P'' \<or> p = CHR ''N'' \<or> p = CHR ''K'' \<or>
                    (q \<noteq> CHR '' '' \<and> q \<noteq> CHR ''.'' \<and> \<not> ours q)")
        case True
        then have "moves' = moves @ [?m]"
          using assms(1) q False bl nb by (simp add: ray_step_def Let_def)
        then show ?thesis
          using em by simp
      next
        case nc: False
        then have "castling pos i j (moves @ [?m]) = Inr moves'"
          using assms(1) q False bl nb by (auto simp: ray_step_def Let_def split: sum.splits)
        then obtain new where "moves' = (moves @ [?m]) @ new"
          "\<forall>m \<in> set new. at (board pos) (mfrom m) = Inr (CHR ''K'')"
          using castling_frame by blast
        then have "moves' = moves @ (?m # new) \<and> (\<forall>m \<in> set (?m # new). emitted pos p i d m)"
          using em by (simp add: emitted_def)
        then show ?thesis by blast
      qed
    qed
  qed
qed

lemma ray_frame:
  assumes d: "d \<noteq> 0"
    and r: "ray pos p i d (i + d) moves = Some (Inr out)"
  shows "\<exists>new. out = moves @ new \<and> (\<forall>m \<in> set new. emitted pos p i d m)"
proof -
  let ?F = "\<lambda>ms. \<exists>new. ms = moves @ new \<and> (\<forall>m \<in> set new. emitted pos p i d m)"
  have "\<exists>r. ray pos p i d (i + d) moves = Some r \<and> (\<forall>out. r = Inr out \<longrightarrow> ?F out)"
  proof (rule ray_rule [where I = "\<lambda>j ms. (p = CHR ''P'' \<longrightarrow> j = i + d) \<and> ?F ms"])
    show "d \<noteq> 0" by (rule d)
    show "(p = CHR ''P'' \<longrightarrow> i + d = i + d) \<and> ?F moves" by simp
  next
    fix j ms ms'
    assume inv: "(p = CHR ''P'' \<longrightarrow> j = i + d) \<and> ?F ms"
      and st: "ray_step pos p i d j ms = Inr (False, ms')"
    obtain new where "ms' = ms @ new" "\<forall>m \<in> set new. emitted pos p i d m"
      using ray_step_frame [OF st] inv by blast
    moreover obtain new0 where "ms = moves @ new0" "\<forall>m \<in> set new0. emitted pos p i d m"
      using inv by blast
    ultimately have "ms' = moves @ (new0 @ new) \<and> (\<forall>m \<in> set (new0 @ new). emitted pos p i d m)"
      by auto
    then have "?F ms'" by blast
    then show "(p = CHR ''P'' \<longrightarrow> j + d = i + d) \<and> ?F ms'"
      using ray_step_continue [OF st] by simp
  next
    fix j ms ms'
    assume inv: "(p = CHR ''P'' \<longrightarrow> j = i + d) \<and> ?F ms"
      and st: "ray_step pos p i d j ms = Inr (True, ms')"
    obtain new where "ms' = ms @ new" "\<forall>m \<in> set new. emitted pos p i d m"
      using ray_step_frame [OF st] inv by blast
    moreover obtain new0 where "ms = moves @ new0" "\<forall>m \<in> set new0. emitted pos p i d m"
      using inv by blast
    ultimately have "ms' = moves @ (new0 @ new) \<and> (\<forall>m \<in> set (new0 @ new). emitted pos p i d m)"
      by auto
    then have "?F ms'" by blast
    then show "\<forall>out. (Inr ms' :: panic + Move list) = Inr out \<longrightarrow> ?F out"
      by simp
  next
    fix j ms e
    show "\<forall>out. (Inl e :: panic + Move list) = Inr out \<longrightarrow> ?F out"
      by simp
  qed
  then show ?thesis
    using r by simp
qed

lemma directions_loop_frame:
  "\<forall>d \<in> set ds. d \<noteq> 0 \<Longrightarrow> directions_loop pos p i ds moves = Some (Inr out) \<Longrightarrow>
   \<exists>new. out = moves @ new \<and> (\<forall>m \<in> set new. \<exists>d \<in> set ds. emitted pos p i d m)"
proof (induction ds arbitrary: moves)
  case Nil
  then show ?case by simp
next
  case (Cons d ds)
  from Cons.prems(2) obtain mid where
    r: "ray pos p i d (i + d) moves = Some (Inr mid)" and
    l: "directions_loop pos p i ds mid = Some (Inr out)"
    by (auto split: option.splits sum.splits)
  obtain new1 where n1: "mid = moves @ new1" "\<forall>m \<in> set new1. emitted pos p i d m"
    using ray_frame [OF _ r] Cons.prems(1) by auto
  obtain new2 where n2: "out = mid @ new2" "\<forall>m \<in> set new2. \<exists>d \<in> set ds. emitted pos p i d m"
    using Cons.IH [OF _ l] Cons.prems(1) by auto
  have "out = moves @ (new1 @ new2) \<and>
        (\<forall>m \<in> set (new1 @ new2). \<exists>d' \<in> set (d # ds). emitted pos p i d' m)"
    using n1 n2 by auto
  then show ?case by blast
qed

lemma directions_nonzero: "\<forall>d \<in> set (directions p). d \<noteq> 0"
  using directions_bound by blast

lemma squares_loop_frame:
  "squares_loop pos idxs moves = Some (Inr out) \<Longrightarrow>
   \<exists>new. out = moves @ new \<and>
     (\<forall>m \<in> set new. \<exists>k \<in> set idxs. \<exists>d \<in> set (directions (board pos ! k)).
        emitted pos (board pos ! k) (int k) d m)"
proof (induction idxs arbitrary: moves)
  case Nil
  then show ?case by simp
next
  case (Cons k idxs)
  show ?case
  proof (cases "ours (board pos ! k)")
    case False
    then have "squares_loop pos idxs moves = Some (Inr out)"
      using Cons.prems by simp
    then show ?thesis
      using Cons.IH by fastforce
  next
    case True
    let ?p = "board pos ! k"
    from Cons.prems True obtain mid where
      r: "directions_loop pos ?p (int k) (directions ?p) moves = Some (Inr mid)" and
      l: "squares_loop pos idxs mid = Some (Inr out)"
      by (auto simp: Let_def split: option.splits sum.splits)
    obtain new1 where n1: "mid = moves @ new1"
      "\<forall>m \<in> set new1. \<exists>d \<in> set (directions ?p). emitted pos ?p (int k) d m"
      using directions_loop_frame [OF directions_nonzero r] by blast
    obtain new2 where n2: "out = mid @ new2"
      "\<forall>m \<in> set new2. \<exists>k \<in> set idxs. \<exists>d \<in> set (directions (board pos ! k)).
          emitted pos (board pos ! k) (int k) d m"
      using Cons.IH [OF l] by blast
    have "out = moves @ (new1 @ new2) \<and>
        (\<forall>m \<in> set (new1 @ new2). \<exists>k' \<in> set (k # idxs). \<exists>d \<in> set (directions (board pos ! k')).
          emitted pos (board pos ! k') (int k') d m)"
      using n1 n2 by auto
    then show ?thesis by blast
  qed
qed

lemma squares_loop_append:
  "squares_loop pos (xs @ ys) moves = Some (Inr out) \<Longrightarrow>
   \<exists>mid. squares_loop pos xs moves = Some (Inr mid) \<and> squares_loop pos ys mid = Some (Inr out)"
proof (induction xs arbitrary: moves)
  case Nil
  then show ?case by simp
next
  case (Cons k xs)
  show ?case
  proof (cases "ours (board pos ! k)")
    case False
    then show ?thesis
      using Cons by simp
  next
    case True
    let ?p = "board pos ! k"
    from Cons.prems True obtain m1 where
      r: "directions_loop pos ?p (int k) (directions ?p) moves = Some (Inr m1)" and
      l: "squares_loop pos (xs @ ys) m1 = Some (Inr out)"
      by (auto simp: Let_def split: option.splits sum.splits)
    then show ?thesis
      using Cons.IH [OF l] True by simp
  qed
qed

lemma directions_loop_member:
  "\<forall>d \<in> set ds. d \<noteq> 0 \<Longrightarrow> directions_loop pos p i ds moves = Some (Inr out) \<Longrightarrow> d \<in> set ds \<Longrightarrow>
   \<exists>a b. ray pos p i d (i + d) a = Some (Inr b) \<and> set b \<subseteq> set out"
proof (induction ds arbitrary: moves)
  case Nil
  then show ?case by simp
next
  case (Cons d' ds)
  from Cons.prems(2) obtain mid where
    r: "ray pos p i d' (i + d') moves = Some (Inr mid)" and
    l: "directions_loop pos p i ds mid = Some (Inr out)"
    by (auto split: option.splits sum.splits)
  show ?case
  proof (cases "d = d'")
    case True
    have "set mid \<subseteq> set out"
      using directions_loop_frame [OF _ l] Cons.prems(1) by auto
    then show ?thesis
      using r True by blast
  next
    case False
    then show ?thesis
      using Cons.IH [OF _ l] Cons.prems by auto
  qed
qed

lemma upt_split: "k < n \<Longrightarrow> [0..<n] = [0..<k] @ k # [Suc k..<n]"
proof -
  assume k: "k < n"
  have "[0..<k + (n - k)] = [0..<k] @ [k..<k + (n - k)]"
    by (rule upt_add_eq_append) simp
  then have "[0..<n] = [0..<k] @ [k..<n]"
    using k by simp
  then show ?thesis
    using k by (simp add: upt_conv_Cons)
qed

lemma ray_step_pawn_diagonal:
  assumes "d = dN + dW \<or> d = dN + dE"
    and "at (board pos) j = Inr q"
  shows "ray_step pos (CHR ''P'') i d j moves =
     Inr (True,
       if q = CHR '' '' \<or> (q \<noteq> CHR ''.'' \<and> ours q) \<or>
          (q = CHR ''.'' \<and> j \<noteq> ep pos \<and> j \<noteq> kp pos \<and> j \<noteq> kp pos - 1 \<and> j \<noteq> kp pos + 1)
       then moves else moves @ [\<lparr>mfrom = i, mto = j\<rparr>])"
  using assms
  by (auto simp: ray_step_def pawn_break_def Let_def dN_def dW_def dE_def)

lemma pawn_break_diagonal:
  "d = dN + dW \<or> d = dN + dE \<Longrightarrow>
   pawn_break pos i d j q =
     Inr (q = CHR ''.'' \<and> j \<noteq> ep pos \<and> j \<noteq> kp pos \<and> j \<noteq> kp pos - 1 \<and> j \<noteq> kp pos + 1)"
  by (auto simp: pawn_break_def dN_def dW_def dE_def)

lemma ours_iff: "ours p \<longleftrightarrow> p \<in> set ''PNBRQK''"
  by (simp add: ours_def piece_value_def)

lemma valid_cases:
  "valid_piece q \<longleftrightarrow> q \<in> set ''PNBRQK'' \<or> q \<in> set ''pnbrqk'' \<or> q = CHR '' '' \<or> q = CHR ''.''"
  unfolding valid_piece_def by (simp add: disj_ac)

lemma valid_opposing:
  assumes "valid_piece q" "q \<noteq> CHR ''.''" "q \<noteq> CHR '' ''" "\<not> ours q"
  shows "q \<in> set ''pnbrqk''"
proof -
  have "q \<in> set ''PNBRQK'' \<or> q \<in> set ''pnbrqk'' \<or> q = CHR '' '' \<or> q = CHR ''.''"
    using assms(1) by (simp only: valid_cases)
  moreover have "q \<notin> set ''PNBRQK''"
    using assms(4) by (simp only: ours_iff not_False_eq_True)
  ultimately show ?thesis
    using assms(2,3) by argo
qed

text \<open>
  Claim C5, as amended. Let an own pawn stand on \<open>i\<close>, let \<open>d\<close> be one of its two
  diagonal steps, and let \<open>Moves\<close> return the list \<open>ms\<close>. Then \<open>i + d\<close> is a cell of
  the board, and the move from \<open>i\<close> to \<open>i + d\<close> is in \<open>ms\<close> exactly when: the
  destination is empty and is the en-passant coordinate, the king-passant coordinate
  itself or one of its two neighbours; or the destination is not empty and holds neither
  padding nor an own piece, which on a board of valid codes means an opposing piece.
\<close>

theorem C5_pawn_diagonal:
  assumes mv: "Moves pos = Some (Inr ms)"
    and brd: "is_board (board pos)"
    and i: "0 \<le> i" "i < 120"
    and p: "board pos ! nat i = CHR ''P''"
    and d: "d = dN + dW \<or> d = dN + dE"
  shows "0 \<le> i + d \<and> i + d < 120 \<and>
     (\<lparr>mfrom = i, mto = i + d\<rparr> \<in> set ms \<longleftrightarrow>
        (if board pos ! nat (i + d) = CHR ''.''
         then i + d = ep pos \<or> i + d = kp pos \<or> i + d = kp pos - 1 \<or> i + d = kp pos + 1
         else board pos ! nat (i + d) \<noteq> CHR '' '' \<and> \<not> ours (board pos ! nat (i + d)))) \<and>
     (list_all valid_piece (board pos) \<and> board pos ! nat (i + d) \<noteq> CHR ''.'' \<and>
      \<lparr>mfrom = i, mto = i + d\<rparr> \<in> set ms \<longrightarrow> board pos ! nat (i + d) \<in> set ''pnbrqk'')"
proof -
  let ?m = "\<lparr>mfrom = i, mto = i + d\<rparr>"
  let ?q = "board pos ! nat (i + d)"
  let ?hit = "i + d = ep pos \<or> i + d = kp pos \<or> i + d = kp pos - 1 \<or> i + d = kp pos + 1"
  have len: "length (board pos) = 120"
    using brd by (simp add: is_board_def)
  have k: "nat i < 120"
    using i by simp
  have "squares_loop pos ([0..<nat i] @ nat i # [Suc (nat i)..<120]) [] = Some (Inr ms)"
    using mv upt_split [OF k] by (simp add: Moves_def len)
  then obtain m1 where "squares_loop pos (nat i # [Suc (nat i)..<120]) m1 = Some (Inr ms)"
    using squares_loop_append by blast
  then obtain m2 where
    dl: "directions_loop pos (CHR ''P'') i (directions (CHR ''P'')) m1 = Some (Inr m2)" and
    sl: "squares_loop pos [Suc (nat i)..<120] m2 = Some (Inr ms)"
    using p i by (auto simp: Let_def ours_def piece_value_def split: option.splits sum.splits)
  have "d \<in> set (directions (CHR ''P''))"
    using d by (auto simp: directions_def)
  then obtain a b where
    r: "ray pos (CHR ''P'') i d (i + d) a = Some (Inr b)" and
    sub: "set b \<subseteq> set m2"
    using directions_loop_member [OF directions_nonzero dl] by blast
  have sub2: "set m2 \<subseteq> set ms"
    using squares_loop_frame [OF sl] by auto
  obtain x where st: "ray_step pos (CHR ''P'') i d (i + d) a = Inr x"
    using r by (subst (asm) ray.simps) (auto split: sum.splits)
  have rng: "0 \<le> i + d \<and> i + d < 120"
    using ray_step_in_range [OF st] len by simp
  then have q: "at (board pos) (i + d) = Inr ?q"
    using len by (simp add: at_def)
  have b: "b = (if ?q = CHR '' '' \<or> (?q \<noteq> CHR ''.'' \<and> ours ?q) \<or> (?q = CHR ''.'' \<and> \<not> ?hit)
                then a else a @ [?m])"
    using r ray_step_pawn_diagonal [OF d q, of i a]
    by (subst (asm) ray.simps) (simp add: de_Morgan_disj)
  have dot: "\<not> ours (CHR ''.'')" "CHR ''.'' \<noteq> CHR '' ''"
    by (simp_all add: ours_def piece_value_def)
  have main: "?m \<in> set ms \<longleftrightarrow>
      (if ?q = CHR ''.'' then ?hit else ?q \<noteq> CHR '' '' \<and> \<not> ours ?q)"
  proof (intro iffI)
    assume "?m \<in> set ms"
    then obtain k' d' where k': "k' < 120" "d' \<in> set (directions (board pos ! k'))"
      "emitted pos (board pos ! k') (int k') d' ?m"
      using squares_loop_frame [of pos "[0..<120]" "[]" ms] mv
      by (auto simp: Moves_def len)
    have "at (board pos) i \<noteq> Inr (CHR ''K'')"
      using p i len by (simp add: at_def)
    then have e: "i = int k'" "?q \<noteq> CHR '' ''" "?q \<noteq> CHR ''.'' \<longrightarrow> \<not> ours ?q"
      "board pos ! k' = CHR ''P'' \<longrightarrow> i + d = int k' + d' \<and> pawn_break pos (int k') d' (i + d) ?q = Inr False"
      using k'(3) q by (auto simp: emitted_def)
    then have "pawn_break pos i d (i + d) ?q = Inr False"
      using p by auto
    then have "\<not> (?q = CHR ''.'' \<and> \<not> ?hit)"
      using pawn_break_diagonal [OF d, of pos i "i + d" ?q] by simp
    then show "if ?q = CHR ''.'' then ?hit else ?q \<noteq> CHR '' '' \<and> \<not> ours ?q"
      using e by auto
  next
    assume "if ?q = CHR ''.'' then ?hit else ?q \<noteq> CHR '' '' \<and> \<not> ours ?q"
    then have "b = a @ [?m]"
      using b dot by (auto split: if_splits)
    then show "?m \<in> set ms"
      using sub sub2 by auto
  qed
  have third: "list_all valid_piece (board pos) \<and> ?q \<noteq> CHR ''.'' \<and> ?m \<in> set ms \<longrightarrow>
      ?q \<in> set ''pnbrqk''"
  proof (intro impI, elim conjE)
    assume v: "list_all valid_piece (board pos)" and nd: "?q \<noteq> CHR ''.''" and mem: "?m \<in> set ms"
    have "nat (i + d) < length (board pos)"
      using rng len by linarith
    then have vp: "valid_piece ?q"
      using v by (simp only: list_all_length)
    have no: "?q \<noteq> CHR '' ''" "\<not> ours ?q"
      using main mem nd by (simp_all only: if_False simp_thms)
    show "?q \<in> set ''pnbrqk''"
      by (rule valid_opposing [OF vp nd no])
  qed
  show ?thesis
  proof (intro conjI)
    show "0 \<le> i + d" "i + d < 120"
      using rng by simp_all
    show "?m \<in> set ms \<longleftrightarrow>
      (if ?q = CHR ''.'' then ?hit else ?q \<noteq> CHR '' '' \<and> \<not> ours ?q)"
      by (rule main)
    show "list_all valid_piece (board pos) \<and> ?q \<noteq> CHR ''.'' \<and> ?m \<in> set ms \<longrightarrow>
      ?q \<in> set ''pnbrqk''"
      by (rule third)
  qed
qed

theorem C5_pawn_diagonal_witness:
  "Moves kp_position = Some (Inr (projr (the (Moves kp_position)))) \<and>
   is_board (board kp_position) \<and> board kp_position ! nat 84 = CHR ''P'' \<and>
   board kp_position ! nat (84 + (dN + dW)) = CHR ''.'' \<and> 84 + (dN + dW) = kp kp_position \<and>
   \<lparr>mfrom = 84, mto = 84 + (dN + dW)\<rparr> \<in> set (projr (the (Moves kp_position)))"
proof -
  have "case Moves kp_position of Some (Inr ms) \<Rightarrow> True | _ \<Rightarrow> False"
    by code_simp
  then have mv: "Moves kp_position = Some (Inr (projr (the (Moves kp_position))))"
    by (auto split: option.splits sum.splits)
  have h: "is_board (board kp_position)" "board kp_position ! nat 84 = CHR ''P''"
    "board kp_position ! nat (84 + (dN + dW)) = CHR ''.''" "84 + (dN + dW) = kp kp_position"
    by code_simp+
  have "\<lparr>mfrom = 84, mto = 84 + (dN + dW)\<rparr> \<in> set (projr (the (Moves kp_position)))"
    using C5_pawn_diagonal [OF mv h(1) _ _ h(2), of "dN + dW"] h(3,4) by simp
  then show ?thesis
    using mv h by (intro conjI)
qed

text \<open>
  The claim as stated names the en-passant coordinate and the two neighbours of the
  king-passant coordinate only. With the king-passant coordinate on c3, the pawn on d2
  takes the empty square c3, which is none of them.
\<close>

theorem C5_king_passant_square_itself:
  "map_option (map_sum id (\<lambda>ms. \<lparr>mfrom = 84, mto = 73\<rparr> \<in> set ms)) (Moves kp_position) =
     Some (Inr True) \<and>
   board kp_position ! nat 84 = CHR ''P'' \<and> board kp_position ! nat 73 = CHR ''.'' \<and>
   (73::int) = 84 + (dN + dW) \<and>
   73 \<noteq> ep kp_position \<and> 73 \<noteq> kp kp_position - 1 \<and> 73 \<noteq> kp kp_position + 1"
  by code_simp

end
